theory Spec2Isabelle
  imports Main
begin

section \<open>Badminton scoreboard: the match reducer, the position resolver and the statistics\<close>

text \<open>
  A shallow embedding of \<^verbatim>\<open>src/utils/matchReducer.ts\<close>, of \<^verbatim>\<open>getTeamPositions\<close>,
  of \<^verbatim>\<open>getMaxPoint\<close> and of \<^verbatim>\<open>calculateGameStats\<close> in \<^verbatim>\<open>src/utils/statsUtils.ts\<close>.
  JavaScript numbers are modelled as \<open>int\<close> (the reducer only adds one, subtracts and
  takes remainders), a player slot of type \<^verbatim>\<open>string | null\<close> (which at run time may also
  hold \<^verbatim>\<open>undefined\<close>, the value of an out-of-range array read) as \<open>jname\<close>.
\<close>

subsection \<open>Data model (\<^verbatim>\<open>src/types/match.ts\<close>)\<close>

datatype side = SideA | SideB

datatype jname = Name string | Null | Undefined

record Players =
  teamA :: "jname list"
  teamB :: "jname list"

record PointSnapshot =
  ps_pointsA :: int
  ps_setsA :: int
  ps_pointsB :: int
  ps_setsB :: int
  ps_serverSide :: "side option"
  ps_currentServer :: jname
  ps_currentReceiver :: jname
  ps_nextServer :: jname
  ps_serveIndex :: int
  ps_players :: Players

record GameSnapshot =
  gameNumber :: int
  gs_pointsA :: int
  gs_pointsB :: int
  winnerSide :: "side option"
  duration :: int
  pointHistory :: "PointSnapshot list"

record MatchState =
  pointsA :: int
  setsA :: int
  pointsB :: int
  setsB :: int
  players :: Players
  currentSetPointHistory :: "PointSnapshot list"
  matchHistory :: "GameSnapshot list"
  serverSide :: "side option"
  currentServer :: jname
  currentReceiver :: jname
  nextServer :: jname
  serveOrder :: "jname list"
  serveIndex :: int
  scoringSystem :: int
  currentSetStartTime :: int
  setFinishData :: "GameSnapshot option"
  receiverOffsetA :: int
  receiverOffsetB :: int
  lastTwoPointWinners :: "side list"

datatype MatchAction =
    START_MATCH Players side string string "int option" int
  | INCREMENT side int int
  | CONTINUE_NEXT_SET int string string
  | UNDO
  | RESET_HISTORY
  | SET_SET_FINISH_DATA "GameSnapshot option"
  | CLEAR_POINT_HISTORY
  | SET_NEXT_SERVER string
  | SET_NEXT_RECEIVER string

subsection \<open>JavaScript primitives used by the source\<close>

text \<open>\<^verbatim>\<open>xs[i]\<close>: an out-of-range read yields \<^verbatim>\<open>undefined\<close>.\<close>

definition at :: "jname list \<Rightarrow> int \<Rightarrow> jname" where
  "at xs i = (if 0 \<le> i \<and> i < int (length xs) then xs ! nat i else Undefined)"

text \<open>\<^verbatim>\<open>xs.indexOf(x)\<close> and \<^verbatim>\<open>xs.findIndex(p => p === x)\<close>: first position, or \<open>-1\<close>.\<close>

primrec indexOf :: "jname list \<Rightarrow> jname \<Rightarrow> int" where
  "indexOf [] x = - 1"
| "indexOf (y # ys) x =
     (if y = x then 0 else (let r = indexOf ys x in if r < 0 then - 1 else r + 1))"

text \<open>\<^verbatim>\<open>xs.includes(x)\<close>.\<close>

definition includes_name :: "jname list \<Rightarrow> jname \<Rightarrow> bool" where
  "includes_name xs x = (x \<in> set xs)"

text \<open>\<^verbatim>\<open>a % b\<close>: the remainder takes the sign of the dividend.\<close>

definition js_rem :: "int \<Rightarrow> int \<Rightarrow> int" where
  "js_rem a b = sgn a * (\<bar>a\<bar> mod \<bar>b\<bar>)"

text \<open>\<^verbatim>\<open>a ?? b\<close>.\<close>

definition nullish :: "jname \<Rightarrow> jname \<Rightarrow> jname" where
  "nullish a b = (case a of Name n \<Rightarrow> Name n | Null \<Rightarrow> b | Undefined \<Rightarrow> b)"

text \<open>\<^verbatim>\<open>xs.slice(-2)\<close>.\<close>

definition slice_last2 :: "'a list \<Rightarrow> 'a list" where
  "slice_last2 xs = drop (length xs - 2) xs"

subsection \<open>\<^verbatim>\<open>getMaxPoint\<close>\<close>

definition getMaxPoint :: "int \<Rightarrow> int" where
  "getMaxPoint system = (if system = 15 then 21 else if system = 21 then 30 else 30)"

subsection \<open>The position resolver \<^verbatim>\<open>getTeamPositions\<close>\<close>

text \<open>
  The serving side is typed \<^verbatim>\<open>"A" | "B"\<close>, but \<^verbatim>\<open>CONTINUE_NEXT_SET\<close> passes
  \<^verbatim>\<open>state.serverSide!\<close>, which may be \<^verbatim>\<open>null\<close>; hence \<open>side option\<close>.
  Team A's pair is [left, right], team B's pair is [right, left].
\<close>

definition getTeamPositions ::
  "side option \<Rightarrow> Players \<Rightarrow> jname \<Rightarrow> jname \<Rightarrow> int \<Rightarrow> int \<Rightarrow> Players" where
  "getTeamPositions servingSide team serverName receiverName pA pB =
    (let tA = teamA team; tB = teamB team in
     if length tA = 1 \<and> length tB = 1
     then \<lparr>teamA = [at tA 0, at tA 0], teamB = [at tB 0, at tB 0]\<rparr>
     else
       let servingSiderTeam = (if servingSide = Some SideA then tA else tB);
           opponentTeam = (if servingSide = Some SideA then tB else tA);
           sIdx = max 0 (indexOf servingSiderTeam serverName);
           oIdx = max 0 (indexOf opponentTeam receiverName);
           server = at servingSiderTeam sIdx;
           partnerServer = at servingSiderTeam (1 - sIdx);
           receiver = at opponentTeam oIdx;
           partnerReceiver = at opponentTeam (1 - oIdx);
           isEvenA = (js_rem pA 2 = 0);
           isEvenB = (js_rem pB 2 = 0)
       in
         if pA = 0 \<and> pB = 0 then
           (if servingSide = Some SideA
            then \<lparr>teamA = [partnerServer, server], teamB = [receiver, partnerReceiver]\<rparr>
            else \<lparr>teamA = [partnerReceiver, receiver], teamB = [server, partnerServer]\<rparr>)
         else if servingSide = Some SideA \<and> isEvenA then
           \<lparr>teamA = [partnerServer, server], teamB = [at tB 0, at tB 1]\<rparr>
         else if servingSide = Some SideA \<and> \<not> isEvenA then
           \<lparr>teamA = [server, partnerServer], teamB = [at tB 0, at tB 1]\<rparr>
         else if servingSide = Some SideB \<and> isEvenB then
           \<lparr>teamA = [at tA 0, at tA 1], teamB = [server, partnerServer]\<rparr>
         else if servingSide = Some SideB \<and> \<not> isEvenB then
           \<lparr>teamA = [at tA 0, at tA 1], teamB = [partnerServer, server]\<rparr>
         else \<lparr>teamA = [at tA 0, at tA 1], teamB = [at tB 0, at tB 1]\<rparr>)"

subsection \<open>The reducer \<^verbatim>\<open>matchReducer\<close>\<close>

definition initialState :: MatchState where
  "initialState =
    \<lparr>pointsA = 0, setsA = 0, pointsB = 0, setsB = 0,
     players = \<lparr>teamA = [], teamB = []\<rparr>,
     currentSetPointHistory = [], matchHistory = [],
     serverSide = None, currentServer = Null, currentReceiver = Null, nextServer = Null,
     serveOrder = [], serveIndex = 0, scoringSystem = 21, currentSetStartTime = 0,
     setFinishData = None, receiverOffsetA = 0, receiverOffsetB = 0,
     lastTwoPointWinners = []\<rparr>"

definition createSnapshot :: "MatchState \<Rightarrow> PointSnapshot" where
  "createSnapshot state =
    \<lparr>ps_pointsA = pointsA state, ps_setsA = setsA state,
     ps_pointsB = pointsB state, ps_setsB = setsB state,
     ps_serverSide = serverSide state, ps_currentServer = currentServer state,
     ps_currentReceiver = currentReceiver state, ps_nextServer = nextServer state,
     ps_serveIndex = serveIndex state,
     ps_players = \<lparr>teamA = teamA (players state), teamB = teamB (players state)\<rparr>\<rparr>"

text \<open>Case \<^verbatim>\<open>START_MATCH\<close>.\<close>

definition startRotation :: "Players \<Rightarrow> side \<Rightarrow> string \<Rightarrow> string \<Rightarrow> jname list" where
  "startRotation newPlayers firstServe firstServerName opponentReceiverName =
    (let tA = teamA newPlayers; tB = teamB newPlayers in
     if length tA = 1 then
       [if firstServe = SideA then at tA 0 else at tB 0,
        if firstServe = SideA then at tB 0 else at tA 0]
     else
       let firstServerTeam = (if firstServe = SideA then tA else tB);
           opponentTeam = (if firstServe = SideA then tB else tA);
           sIdx = max 0 (indexOf firstServerTeam (Name firstServerName));
           oIdx = max 0 (indexOf opponentTeam (Name opponentReceiverName));
           a = at firstServerTeam sIdx;
           b = at opponentTeam oIdx;
           c = at firstServerTeam (1 - sIdx);
           d = at opponentTeam (1 - oIdx)
       in [a, d, c, b])"

definition startMatch ::
  "Players \<Rightarrow> side \<Rightarrow> string \<Rightarrow> string \<Rightarrow> int option \<Rightarrow> int \<Rightarrow> MatchState" where
  "startMatch newPlayers firstServe firstServerName opponentReceiverName
      scoringSystemParam startTime =
    (let tA = teamA newPlayers; tB = teamB newPlayers;
         single = (length tA = 1);
         teamPositions =
           (if single then newPlayers
            else getTeamPositions (Some firstServe) newPlayers (Name firstServerName)
                   (Name opponentReceiverName) 0 0);
         rotation = startRotation newPlayers firstServe firstServerName opponentReceiverName;
         server = (if single then (if firstServe = SideA then at tA 0 else at tB 0)
                   else Name firstServerName);
         receiver = (if single then (if firstServe = SideA then at tB 0 else at tA 0)
                     else Name opponentReceiverName);
         initIndex = indexOf rotation (Name firstServerName);
         startIndex = (if initIndex \<ge> 0 then initIndex else 0)
     in initialState
          \<lparr>players := teamPositions,
           scoringSystem :=
             (case scoringSystemParam of Some t \<Rightarrow> t | None \<Rightarrow> scoringSystem initialState),
           currentSetStartTime := startTime,
           serveOrder := rotation,
           serveIndex := startIndex,
           nextServer := at rotation (js_rem (startIndex + 1) (int (length rotation))),
           serverSide := Some firstServe,
           currentServer := server,
           currentReceiver := receiver\<rparr>)"

text \<open>Case \<^verbatim>\<open>INCREMENT\<close>: the provisional scores and the completion test.\<close>

definition newPointsA :: "MatchState \<Rightarrow> side \<Rightarrow> int" where
  "newPointsA state sd = (if sd = SideA then pointsA state + 1 else pointsA state)"

definition newPointsB :: "MatchState \<Rightarrow> side \<Rightarrow> int" where
  "newPointsB state sd = (if sd = SideB then pointsB state + 1 else pointsB state)"

definition isSetFinished :: "MatchState \<Rightarrow> side \<Rightarrow> int \<Rightarrow> bool" where
  "isSetFinished state sd maxPoint =
    (let nA = newPointsA state sd; nB = newPointsB state sd in
     (nA \<ge> scoringSystem state \<and> nA - nB \<ge> 2) \<or>
     (nB \<ge> scoringSystem state \<and> nB - nA \<ge> 2) \<or>
     nA = maxPoint \<or> nB = maxPoint)"

text \<open>The loop collecting the winner of every point of the finished set.\<close>

fun pointWinners :: "PointSnapshot list \<Rightarrow> side list" where
  "pointWinners (prev # cur # rest) =
     (if ps_pointsA cur > ps_pointsA prev then [SideA]
      else if ps_pointsB cur > ps_pointsB prev then [SideB] else [])
     @ pointWinners (cur # rest)"
| "pointWinners [p] = []"
| "pointWinners [] = []"

definition defaultNextServer :: "MatchState \<Rightarrow> side list \<Rightarrow> jname list \<Rightarrow> jname" where
  "defaultNextServer state lastTwo winnerTeam =
    (let d =
       (if length lastTwo = 2 \<and> length (serveOrder state) > 0 then
          (if lastTwo ! 0 = lastTwo ! 1 then nullish (currentServer state) (at winnerTeam 0)
           else
             let lastServerIndex = indexOf (serveOrder state) (currentServer state) in
             if lastServerIndex \<noteq> - 1
             then at (serveOrder state)
                    (js_rem (lastServerIndex + 2) (int (length (serveOrder state))))
             else at winnerTeam 0)
        else nullish (currentServer state) (at winnerTeam 0))
     in if \<not> includes_name winnerTeam d then at winnerTeam 0 else d)"

definition incrementFinish :: "MatchState \<Rightarrow> side \<Rightarrow> int \<Rightarrow> MatchState" where
  "incrementFinish state sd time =
    (let currentStateSnapshot = createSnapshot state;
         nA = newPointsA state sd; nB = newPointsB state sd;
         winner = (if nA > nB then SideA else SideB);
         newSetsA = setsA state + (if winner = SideA then 1 else 0);
         newSetsB = setsB state + (if winner = SideB then 1 else 0);
         finalPointSnapshot =
           currentStateSnapshot\<lparr>ps_pointsA := nA, ps_pointsB := nB,
             ps_setsA := newSetsA, ps_setsB := newSetsB\<rparr>;
         gameHistory =
           currentSetPointHistory state @ [currentStateSnapshot, finalPointSnapshot];
         lastTwo = slice_last2 (pointWinners gameHistory);
         data = \<lparr>gameNumber = int (length (matchHistory state)) + 1,
                 gs_pointsA = nA, gs_pointsB = nB, winnerSide = Some winner,
                 duration = time - currentSetStartTime state,
                 pointHistory = gameHistory\<rparr>;
         winnerTeam = (if winner = SideA then teamA (players state) else teamB (players state));
         loserTeam = (if winner = SideA then teamB (players state) else teamA (players state));
         nextSrv = defaultNextServer state lastTwo winnerTeam;
         teamPositions =
           (if length (teamA (players state)) = 1 then players state
            else getTeamPositions (Some winner) (players state) nextSrv
                   (currentReceiver state) nA nB);
         defaultNextReceiver = (if winner = SideA then at loserTeam 0 else at loserTeam 1)
     in state
          \<lparr>pointsA := nA, pointsB := nB, setsA := newSetsA, setsB := newSetsB,
           setFinishData := Some data,
           matchHistory := matchHistory state @ [data],
           lastTwoPointWinners := lastTwo,
           currentServer := nextSrv,
           currentReceiver := defaultNextReceiver,
           players := teamPositions,
           currentSetPointHistory := []\<rparr>)"

definition incrementPlay :: "MatchState \<Rightarrow> side \<Rightarrow> MatchState" where
  "incrementPlay state sd =
    (let currentStateSnapshot = createSnapshot state;
         nA = newPointsA state sd; nB = newPointsB state sd;
         isEvenA = (js_rem nA 2 = 0); isEvenB = (js_rem nB 2 = 0);
         prevServerSide = serverSide state;
         isServeChange = (Some sd \<noteq> prevServerSide);
         rotate = (isServeChange \<and> length (serveOrder state) > 0);
         newServeIndex =
           (if rotate then js_rem (serveIndex state + 1) (int (length (serveOrder state)))
            else serveIndex state);
         newServer = (if rotate then at (serveOrder state) newServeIndex else currentServer state);
         newNext =
           (if rotate
            then at (serveOrder state)
                   (js_rem (newServeIndex + 1) (int (length (serveOrder state))))
            else nextServer state);
         newServerSide =
           (if rotate then (if includes_name (teamA (players state)) newServer then SideA else SideB)
            else (case prevServerSide of Some p \<Rightarrow> p | None \<Rightarrow> sd));
         isSingle = (length (teamA (players state)) = 1);
         teamPositions =
           (if isSingle then players state
            else getTeamPositions (Some sd) (players state) newServer
                   (currentReceiver state) nA nB);
         newReceiver =
           (if isSingle then
              (if newServerSide = SideA then at (teamB teamPositions) 0
               else at (teamA teamPositions) 0)
            else if newServerSide = SideA \<and> isEvenA then at (teamB teamPositions) 0
            else if newServerSide = SideA \<and> \<not> isEvenA then at (teamB teamPositions) 1
            else if newServerSide = SideB \<and> isEvenB then at (teamA teamPositions) 1
            else at (teamA teamPositions) 0)
     in state
          \<lparr>pointsA := nA, pointsB := nB,
           currentSetPointHistory := currentSetPointHistory state @ [currentStateSnapshot],
           serverSide := Some newServerSide,
           currentServer := newServer,
           nextServer := newNext,
           serveIndex := newServeIndex,
           currentReceiver := newReceiver,
           players := teamPositions\<rparr>)"

definition increment :: "MatchState \<Rightarrow> side \<Rightarrow> int \<Rightarrow> int \<Rightarrow> MatchState" where
  "increment state sd maxPoint time =
    (if isSetFinished state sd maxPoint then incrementFinish state sd time
     else incrementPlay state sd)"

text \<open>Case \<^verbatim>\<open>UNDO\<close>.\<close>

definition undo :: "MatchState \<Rightarrow> MatchState" where
  "undo state =
    (if length (currentSetPointHistory state) = 0 then state
     else
       let lastState = last (currentSetPointHistory state) in
       state
         \<lparr>pointsA := ps_pointsA lastState, setsA := ps_setsA lastState,
          pointsB := ps_pointsB lastState, setsB := ps_setsB lastState,
          serverSide := ps_serverSide lastState,
          currentServer := ps_currentServer lastState,
          currentReceiver := ps_currentReceiver lastState,
          nextServer := ps_nextServer lastState,
          serveIndex := ps_serveIndex lastState,
          players := ps_players lastState,
          currentSetPointHistory := butlast (currentSetPointHistory state)\<rparr>)"

text \<open>Case \<^verbatim>\<open>CONTINUE_NEXT_SET\<close>.\<close>

definition nextServeOrder :: "MatchState \<Rightarrow> string \<Rightarrow> string \<Rightarrow> jname list" where
  "nextServeOrder state nextServerName nextReceiverName =
    (let tA = teamA (players state); tB = teamB (players state) in
     if length tA = 1 then [Name nextServerName, Name nextReceiverName]
     else if length tA > 1 then
       let serverTeam = (if includes_name tA (Name nextServerName) then tA else tB);
           receiverTeam = (if includes_name tA (Name nextReceiverName) then tA else tB);
           sIdx = max 0 (indexOf serverTeam (Name nextServerName));
           oIdx = max 0 (indexOf receiverTeam (Name nextReceiverName));
           serverPartner = at serverTeam (1 - sIdx);
           receiverPartner = at receiverTeam (1 - oIdx)
       in [Name nextServerName, receiverPartner, serverPartner, Name nextReceiverName]
     else serveOrder state)"

definition continueNextSet :: "MatchState \<Rightarrow> int \<Rightarrow> string \<Rightarrow> string \<Rightarrow> MatchState" where
  "continueNextSet state startTime nextServerName nextReceiverName =
    (let newServeOrder = nextServeOrder state nextServerName nextReceiverName;
         teamPositions =
           (if length (teamA (players state)) = 1 then players state
            else getTeamPositions (serverSide state) (players state) (Name nextServerName)
                   (Name nextReceiverName) 0 0)
     in state
          \<lparr>pointsA := 0, pointsB := 0,
           currentServer := Name nextServerName,
           serverSide :=
             Some (if includes_name (teamA (players state)) (Name nextServerName)
                   then SideA else SideB),
           currentReceiver := Name nextReceiverName,
           currentSetStartTime := startTime,
           setFinishData := None,
           currentSetPointHistory := [],
           lastTwoPointWinners := [],
           serveOrder := newServeOrder,
           serveIndex := 0,
           nextServer := nullish (at newServeOrder 1) Null,
           players := teamPositions\<rparr>)"

fun matchReducer :: "MatchState \<Rightarrow> MatchAction \<Rightarrow> MatchState" where
  "matchReducer state (START_MATCH newPlayers firstServe firstServerName opponentReceiverName
      scoringSystemParam startTime) =
     startMatch newPlayers firstServe firstServerName opponentReceiverName
       scoringSystemParam startTime"
| "matchReducer state (INCREMENT sd maxPoint time) = increment state sd maxPoint time"
| "matchReducer state UNDO = undo state"
| "matchReducer state (CONTINUE_NEXT_SET startTime nextServerName nextReceiverName) =
     continueNextSet state startTime nextServerName nextReceiverName"
| "matchReducer state RESET_HISTORY = state\<lparr>matchHistory := []\<rparr>"
| "matchReducer state (SET_SET_FINISH_DATA payload) = state\<lparr>setFinishData := payload\<rparr>"
| "matchReducer state CLEAR_POINT_HISTORY = state\<lparr>currentSetPointHistory := []\<rparr>"
| "matchReducer state (SET_NEXT_SERVER payload) = state\<lparr>currentServer := Name payload\<rparr>"
| "matchReducer state (SET_NEXT_RECEIVER payload) = state\<lparr>currentReceiver := Name payload\<rparr>"

text \<open>Dispatching a list of actions in order, as the host's \<^verbatim>\<open>useReducer\<close> does.\<close>

definition dispatchAll :: "MatchState \<Rightarrow> MatchAction list \<Rightarrow> MatchState" where
  "dispatchAll state actions = foldl matchReducer state actions"

subsection \<open>The statistics \<^verbatim>\<open>calculateGameStats\<close> and the per-game view's total\<close>

record GameStats =
  totalPointsWonA :: int
  totalPointsWonB :: int
  totalPointsPlayed :: int
  mostConsecutivePointsA :: int
  mostConsecutivePointsB :: int
  gamePointsA :: int
  gamePointsB :: int

text \<open>The loop state: the statistics so far and the two running streak counters.\<close>

record StatsLoop =
  stats :: GameStats
  currentStreakA :: int
  currentStreakB :: int

definition streakStep :: "PointSnapshot \<Rightarrow> PointSnapshot \<Rightarrow> StatsLoop \<Rightarrow> StatsLoop" where
  "streakStep prev cur l =
    (if ps_pointsA cur > ps_pointsA prev then
       (let sA = currentStreakA l + 1 in
        l\<lparr>currentStreakA := sA, currentStreakB := 0,
          stats := (if sA > mostConsecutivePointsA (stats l)
                    then (stats l)\<lparr>mostConsecutivePointsA := sA\<rparr> else stats l)\<rparr>)
     else if ps_pointsB cur > ps_pointsB prev then
       (let sB = currentStreakB l + 1 in
        l\<lparr>currentStreakB := sB, currentStreakA := 0,
          stats := (if sB > mostConsecutivePointsB (stats l)
                    then (stats l)\<lparr>mostConsecutivePointsB := sB\<rparr> else stats l)\<rparr>)
     else l)"

definition gamePointStep :: "int \<Rightarrow> PointSnapshot \<Rightarrow> GameStats \<Rightarrow> GameStats" where
  "gamePointStep scoring cur st =
    (let gamePointThreshold = scoring - 1;
         deuceThreshold = scoring;
         s1 = (if ps_pointsA cur = gamePointThreshold \<and> ps_pointsB cur < gamePointThreshold
               then st\<lparr>gamePointsA := gamePointsA st + 1\<rparr> else st);
         s2 = (if ps_pointsB cur = gamePointThreshold \<and> ps_pointsA cur < gamePointThreshold
               then s1\<lparr>gamePointsB := gamePointsB s1 + 1\<rparr> else s1);
         s3 = (if ps_pointsA cur \<ge> deuceThreshold \<and> ps_pointsA cur = ps_pointsB cur + 1
               then s2\<lparr>gamePointsA := gamePointsA s2 + 1\<rparr> else s2);
         s4 = (if ps_pointsB cur \<ge> deuceThreshold \<and> ps_pointsB cur = ps_pointsA cur + 1
               then s3\<lparr>gamePointsB := gamePointsB s3 + 1\<rparr> else s3)
     in s4)"

fun statsLoop :: "int \<Rightarrow> PointSnapshot list \<Rightarrow> StatsLoop \<Rightarrow> StatsLoop" where
  "statsLoop scoring (prev # cur # rest) l =
     statsLoop scoring (cur # rest)
       (let l1 = streakStep prev cur l in l1\<lparr>stats := gamePointStep scoring cur (stats l1)\<rparr>)"
| "statsLoop scoring [p] l = l"
| "statsLoop scoring [] l = l"

definition calculateGameStats :: "GameSnapshot \<Rightarrow> int \<Rightarrow> GameStats" where
  "calculateGameStats game scoring =
    stats (statsLoop scoring (pointHistory game)
      \<lparr>stats =
         \<lparr>totalPointsWonA = gs_pointsA game, totalPointsWonB = gs_pointsB game,
          totalPointsPlayed = int (length (pointHistory game)),
          mostConsecutivePointsA = 0, mostConsecutivePointsB = 0,
          gamePointsA = 0, gamePointsB = 0\<rparr>,
       currentStreakA = 0, currentStreakB = 0\<rparr>)"

text \<open>
  The number the per-game view (\<^verbatim>\<open>GameStatsView.tsx\<close>) prints under
  ``Total Points Played''.
\<close>

definition shownTotalPointsPlayed :: "GameSnapshot \<Rightarrow> GameStats \<Rightarrow> int" where
  "shownTotalPointsPlayed game st =
    (if winnerSide game = None \<and> totalPointsPlayed st > 0
     then totalPointsPlayed st else totalPointsPlayed st - 1)"

subsection \<open>Vocabulary of the specification\<close>

text \<open>
  The set-completion rule as the specification words it, for target \<open>t\<close>, hard cap \<open>c\<close>
  and the two provisional scores.
\<close>

definition completionPredicate :: "int \<Rightarrow> int \<Rightarrow> int \<Rightarrow> int \<Rightarrow> bool" where
  "completionPredicate t c a b =
    ((a \<ge> t \<and> a - b \<ge> 2) \<or> a = c \<or> (b \<ge> t \<and> b - a \<ge> 2) \<or> b = c)"

definition scoreAfter :: "MatchState \<Rightarrow> side \<Rightarrow> side \<Rightarrow> int" where
  "scoreAfter s scorer sd =
    (if sd = SideA then pointsA s else pointsB s) + (if scorer = sd then 1 else 0)"

definition completes :: "MatchState \<Rightarrow> side \<Rightarrow> int \<Rightarrow> bool" where
  "completes s scorer c =
    completionPredicate (scoringSystem s) c (scoreAfter s scorer SideA) (scoreAfter s scorer SideB)"

text \<open>
  A transition for a point of side \<open>scorer\<close> at elapsed time \<open>time\<close> marks the set as
  finished: both scores are the provisional ones; the winner is the side with the higher
  provisional score, and its set counter (and only that one) went up by one; the transient
  slot holds a game snapshot that is numbered after the completed sets, carries the
  provisional scores, that winner, the elapsed time since the set started and the set's
  point history closed by the snapshots before and after the winning point; that snapshot
  has been appended to the completed-sets history; and the undo stack is empty.
\<close>

definition setMarkedFinished :: "MatchState \<Rightarrow> side \<Rightarrow> int \<Rightarrow> MatchState \<Rightarrow> bool" where
  "setMarkedFinished s scorer time s' =
    (let a = scoreAfter s scorer SideA; b = scoreAfter s scorer SideB;
         w = (if a > b then SideA else SideB);
         wonA = setsA s + (if w = SideA then 1 else 0);
         wonB = setsB s + (if w = SideB then 1 else 0)
     in case setFinishData s' of
          None \<Rightarrow> False
        | Some d \<Rightarrow>
            matchHistory s' = matchHistory s @ [d] \<and>
            gameNumber d = int (length (matchHistory s)) + 1 \<and>
            gs_pointsA d = a \<and> gs_pointsB d = b \<and>
            winnerSide d = Some w \<and>
            duration d = time - currentSetStartTime s \<and>
            pointHistory d =
              currentSetPointHistory s @
              [createSnapshot s,
               (createSnapshot s)\<lparr>ps_pointsA := a, ps_pointsB := b,
                  ps_setsA := wonA, ps_setsB := wonB\<rparr>] \<and>
            pointsA s' = a \<and> pointsB s' = b \<and>
            setsA s' = wonA \<and> setsB s' = wonB \<and>
            currentSetPointHistory s' = [])"

text \<open>
  A transition for a point of side \<open>scorer\<close> leaves the set open: both scores are the
  provisional ones, and the transient slot, the completed-sets history and both set
  counters are as they were.
\<close>

definition setLeftOpen :: "MatchState \<Rightarrow> side \<Rightarrow> MatchState \<Rightarrow> bool" where
  "setLeftOpen s scorer s' =
    (pointsA s' = scoreAfter s scorer SideA \<and> pointsB s' = scoreAfter s scorer SideB \<and>
     setFinishData s' = setFinishData s \<and> matchHistory s' = matchHistory s \<and>
     setsA s' = setsA s \<and> setsB s' = setsB s)"

text \<open>Sides, rosters and court slots. Team A's pair is stored [left, right], team B's
  pair is stored [right, left].\<close>

definition otherSide :: "side \<Rightarrow> side" where
  "otherSide sd = (if sd = SideA then SideB else SideA)"

definition teamOf :: "side \<Rightarrow> Players \<Rightarrow> jname list" where
  "teamOf sd p = (if sd = SideA then teamA p else teamB p)"

definition scoreOf :: "side \<Rightarrow> int \<Rightarrow> int \<Rightarrow> int" where
  "scoreOf sd a b = (if sd = SideA then a else b)"

definition rightSlot :: "side \<Rightarrow> Players \<Rightarrow> jname" where
  "rightSlot sd p = (if sd = SideA then teamA p ! 1 else teamB p ! 0)"

definition leftSlot :: "side \<Rightarrow> Players \<Rightarrow> jname" where
  "leftSlot sd p = (if sd = SideA then teamA p ! 0 else teamB p ! 1)"

text \<open>The player a name designates in a two-player team: the name itself when it is on the
  team, the team's first entry otherwise (the silent fallback); and that player's partner.\<close>

definition resolveName :: "jname list \<Rightarrow> jname \<Rightarrow> jname" where
  "resolveName team n = (if n \<in> set team then n else team ! 0)"

definition partnerOf :: "jname list \<Rightarrow> jname \<Rightarrow> jname" where
  "partnerOf team n = (if team ! 0 = n then team ! 1 else team ! 0)"

text \<open>The position of the first occurrence of a name in a list, 0 when it does not occur.\<close>

definition positionOr0 :: "jname list \<Rightarrow> jname \<Rightarrow> int" where
  "positionOr0 xs x = (if x \<in> set xs then int (length (takeWhile (\<lambda>p. p \<noteq> x) xs)) else 0)"

text \<open>The offsets overwritten, every other field kept.\<close>

definition withOffsets :: "int \<Rightarrow> int \<Rightarrow> MatchState \<Rightarrow> MatchState" where
  "withOffsets x y s = s\<lparr>receiverOffsetA := x, receiverOffsetB := y\<rparr>"

subsection \<open>Valid inputs, the host's protocol and the serve invariant\<close>

definition isName :: "jname \<Rightarrow> bool" where
  "isName p = (p \<noteq> Null \<and> p \<noteq> Undefined)"

text \<open>A valid roster: singles or doubles, all players named, no name used twice.\<close>

definition validRoster :: "Players \<Rightarrow> bool" where
  "validRoster r =
    ((length (teamA r) = 1 \<and> length (teamB r) = 1 \<or>
      length (teamA r) = 2 \<and> length (teamB r) = 2) \<and>
     distinct (teamA r @ teamB r) \<and> list_all isName (teamA r @ teamB r))"

text \<open>A valid \<^verbatim>\<open>START_MATCH\<close>: a valid roster and, in doubles, the first server on the first
  serving side and the first receiver on the other side (in singles the reducer takes both
  from the roster).\<close>

definition validStart :: "Players \<Rightarrow> side \<Rightarrow> string \<Rightarrow> string \<Rightarrow> bool" where
  "validStart r fs fsn orn =
    (validRoster r \<and>
     (length (teamA r) = 1 \<or>
      Name fsn \<in> set (teamOf fs r) \<and> Name orn \<in> set (teamOf (otherSide fs) r)))"

definition oppositeSides :: "Players \<Rightarrow> jname \<Rightarrow> jname \<Rightarrow> bool" where
  "oppositeSides p x y =
    (x \<in> set (teamA p) \<and> y \<in> set (teamB p) \<or> x \<in> set (teamB p) \<and> y \<in> set (teamA p))"

text \<open>
  The host's protocol after \<^verbatim>\<open>START_MATCH\<close>: points are dispatched only while no finished
  set is waiting in \<^verbatim>\<open>setFinishData\<close> (the host shows a modal over the score board until
  the next set is started), the next set is started with a server and a receiver of
  opposite sides, undo and history reset are always available.
\<close>

definition admitted :: "MatchState \<Rightarrow> MatchAction \<Rightarrow> bool" where
  "admitted s a =
    (case a of
       INCREMENT sd c t \<Rightarrow> setFinishData s = None
     | UNDO \<Rightarrow> True
     | RESET_HISTORY \<Rightarrow> True
     | CONTINUE_NEXT_SET t srv rcv \<Rightarrow> oppositeSides (players s) (Name srv) (Name rcv)
     | START_MATCH r fs fsn orn tgt t \<Rightarrow> False
     | SET_SET_FINISH_DATA d \<Rightarrow> False
     | CLEAR_POINT_HISTORY \<Rightarrow> False
     | SET_NEXT_SERVER n \<Rightarrow> False
     | SET_NEXT_RECEIVER n \<Rightarrow> False)"

fun admittedAll :: "MatchState \<Rightarrow> MatchAction list \<Rightarrow> bool" where
  "admittedAll s [] = True"
| "admittedAll s (a # as) = (admitted s a \<and> admittedAll (matchReducer s a) as)"

text \<open>The invariant: the stored pairs are rearrangements of the roster's teams, the serve
  order holds roster players, and server and receiver stand on opposite sides.\<close>

definition sameTeams :: "Players \<Rightarrow> Players \<Rightarrow> bool" where
  "sameTeams r p =
    (length (teamA p) = length (teamA r) \<and> set (teamA p) = set (teamA r) \<and>
     length (teamB p) = length (teamB r) \<and> set (teamB p) = set (teamB r))"

definition facing :: "Players \<Rightarrow> side option \<Rightarrow> jname \<Rightarrow> jname \<Rightarrow> bool" where
  "facing r ss srv rcv =
    (case ss of
       None \<Rightarrow> False
     | Some sd \<Rightarrow> srv \<in> set (teamOf sd r) \<and> rcv \<in> set (teamOf (otherSide sd) r))"

definition snapshotOk :: "Players \<Rightarrow> PointSnapshot \<Rightarrow> bool" where
  "snapshotOk r p =
    (sameTeams r (ps_players p) \<and> 0 \<le> ps_serveIndex p \<and>
     facing r (ps_serverSide p) (ps_currentServer p) (ps_currentReceiver p))"

definition pendingOk :: "Players \<Rightarrow> jname \<Rightarrow> jname \<Rightarrow> bool" where
  "pendingOk r srv rcv =
    (srv \<in> set (teamA r) \<and> (rcv \<in> set (teamB r) \<or> rcv = Undefined) \<or>
     srv \<in> set (teamB r) \<and> (rcv \<in> set (teamA r) \<or> rcv = Undefined))"

definition matchInv :: "Players \<Rightarrow> MatchState \<Rightarrow> bool" where
  "matchInv r s =
    (sameTeams r (players s) \<and>
     set (serveOrder s) \<subseteq> set (teamA r) \<union> set (teamB r) \<and>
     serveOrder s \<noteq> [] \<and> 0 \<le> serveIndex s \<and>
     (if setFinishData s = None
      then facing r (serverSide s) (currentServer s) (currentReceiver s) \<and>
           list_all (snapshotOk r) (currentSetPointHistory s)
      else currentSetPointHistory s = [] \<and>
           pendingOk r (currentServer s) (currentReceiver s)))"

subsection \<open>Concrete rosters and states used to exercise the theorems\<close>

definition doublesRoster :: Players where
  "doublesRoster = \<lparr>teamA = [Name ''Ann'', Name ''Abe''], teamB = [Name ''Bea'', Name ''Bob'']\<rparr>"

definition singlesRoster :: Players where
  "singlesRoster = \<lparr>teamA = [Name ''Ann''], teamB = [Name ''Bob'']\<rparr>"

definition doublesStart :: MatchState where
  "doublesStart =
     matchReducer initialState (START_MATCH doublesRoster SideA ''Abe'' ''Bea'' (Some 15) 0)"

definition singlesStart :: MatchState where
  "singlesStart =
     matchReducer initialState (START_MATCH singlesRoster SideA ''Ann'' ''Bob'' (Some 15) 0)"

text \<open>\<open>rallies sd n\<close>: side \<open>sd\<close> wins \<open>n\<close> rallies in a row in a match to 15, dispatched
  as the host does (with the hard cap \<^verbatim>\<open>getMaxPoint(15)\<close>).\<close>

definition rallies :: "side \<Rightarrow> nat \<Rightarrow> MatchAction list" where
  "rallies sd n = replicate n (INCREMENT sd (getMaxPoint 15) 0)"

text \<open>A match that follows the host's protocol: side A wins the first set 15--0, the next
  set is started, side B wins two rallies and the second of them is undone.\<close>

definition sampleMatch :: "MatchAction list" where
  "sampleMatch =
     rallies SideA 15 @ [UNDO, RESET_HISTORY, CONTINUE_NEXT_SET 9 ''Ann'' ''Bob''] @
     rallies SideB 2 @ [UNDO]"

section \<open>Verified properties\<close>

subsection \<open>Helper facts about the primitives\<close>

lemma isSetFinished_completes: "isSetFinished s sd c = completes s sd c"
  by (auto simp: isSetFinished_def completes_def completionPredicate_def scoreAfter_def
      newPointsA_def newPointsB_def Let_def)

lemma js_rem_2_even: "(js_rem x 2 = 0) = even x"
  by (auto simp: js_rem_def sgn_if)

lemma js_rem_nonneg: "0 \<le> a \<Longrightarrow> 0 < b \<Longrightarrow> js_rem a b = a mod b"
  by (simp add: js_rem_def sgn_if)

lemma indexOf_takeWhile:
  "indexOf xs x = (if x \<in> set xs then int (length (takeWhile (\<lambda>p. p \<noteq> x) xs)) else - 1)"
  by (induction xs) (auto simp: Let_def)

lemma len2: "length xs = 2 \<Longrightarrow> \<exists>p q. xs = [p, q]"
  by (cases xs; cases "tl xs"; auto)

lemma at_pair [simp]: "at [p, q] 0 = p" "at [p, q] 1 = q"
  by (simp_all add: at_def)

lemma at_pair_resolve: "at [p, q] (max 0 (indexOf [p, q] x)) = resolveName [p, q] x"
  by (simp add: resolveName_def Let_def)

lemma at_pair_partner:
  "at [p, q] (1 - max 0 (indexOf [p, q] x)) = partnerOf [p, q] (resolveName [p, q] x)"
  by (simp add: resolveName_def partnerOf_def Let_def)

lemma at_in_set: "0 \<le> i \<Longrightarrow> i < int (length xs) \<Longrightarrow> at xs i \<in> set xs"
  by (simp add: at_def)

lemma at0_in: "xs \<noteq> [] \<Longrightarrow> at xs 0 \<in> set xs"
  by (cases xs) (simp_all add: at_def)

lemma pair_members:
  "{resolveName [p, q] x, partnerOf [p, q] (resolveName [p, q] x)} = {p, q}"
  "{partnerOf [p, q] (resolveName [p, q] x), resolveName [p, q] x} = {p, q}"
  by (auto simp: resolveName_def partnerOf_def)

lemma count_pair:
  "count_list [resolveName [p, q] x, partnerOf [p, q] (resolveName [p, q] x)] z =
   count_list [p, q] z"
  by (simp add: resolveName_def partnerOf_def)

subsection \<open>Set completion\<close>

lemma scoreAfter_new:
  "scoreAfter s sd SideA = newPointsA s sd" "scoreAfter s sd SideB = newPointsB s sd"
  by (cases sd; simp add: scoreAfter_def newPointsA_def newPointsB_def)+

lemma finish_marks: "setMarkedFinished s sd time (incrementFinish s sd time)"
  unfolding setMarkedFinished_def scoreAfter_new
  by (simp add: incrementFinish_def Let_def)

lemma play_leaves_open:
  "\<not> setMarkedFinished s sd time (incrementPlay s sd) \<and> setLeftOpen s sd (incrementPlay s sd)"
  unfolding setMarkedFinished_def setLeftOpen_def scoreAfter_new
  by (simp add: incrementPlay_def Let_def split: option.splits)

text \<open>
  Claim C1. For every state, scoring side, hard cap \<open>c\<close> and elapsed time, the state
  returned by \<^verbatim>\<open>INCREMENT\<close> marks the set as finished exactly when the completion
  predicate holds on the provisional scores: then the slot holds the game snapshot of this
  set (provisional scores, the side with the higher provisional score as winner, duration,
  full point history), that snapshot is appended to the completed-sets history and the
  winner's set counter alone is incremented. Otherwise the point is added and the slot,
  the completed-sets history and both set counters are left as they were.
\<close>

theorem set_completes_iff_predicate:
  "setMarkedFinished s sd time (matchReducer s (INCREMENT sd c time)) = completes s sd c \<and>
   (completes s sd c \<or> setLeftOpen s sd (matchReducer s (INCREMENT sd c time)))"
  using finish_marks[of s sd time] play_leaves_open[of s sd time]
  by (cases "completes s sd c") (simp_all add: increment_def isSetFinished_completes)

subsection \<open>Undo\<close>

text \<open>
  Claim C2. If the point does not complete the set, \<^verbatim>\<open>UNDO\<close> right after \<^verbatim>\<open>INCREMENT\<close>
  gives back the prior state, equal in every field (the undo stack included).
\<close>

theorem undo_increment_roundtrip:
  "\<not> completes s sd c \<Longrightarrow> matchReducer (matchReducer s (INCREMENT sd c time)) UNDO = s"
  by (simp add: increment_def isSetFinished_completes incrementPlay_def undo_def
      createSnapshot_def Let_def)

theorem undo_increment_roundtrip_witness:
  "\<not> completes doublesStart SideB 21 \<and>
   matchReducer (matchReducer doublesStart (INCREMENT SideB 21 7)) UNDO = doublesStart"
proof -
  have open_set: "\<not> completes doublesStart SideB 21"
    by code_simp
  from undo_increment_roundtrip [OF open_set, of 7] open_set show ?thesis
    by simp
qed

text \<open>
  Claim C9. On a state whose current-set history is empty, \<^verbatim>\<open>UNDO\<close> returns the state
  unchanged, so applying it twice is the same as applying it once.
\<close>

theorem undo_empty_history_noop:
  "currentSetPointHistory s = [] \<Longrightarrow>
     matchReducer s UNDO = s \<and> matchReducer (matchReducer s UNDO) UNDO = matchReducer s UNDO"
  by (simp add: undo_def)

theorem undo_empty_history_noop_witness:
  "currentSetPointHistory initialState = [] \<and>
   matchReducer initialState UNDO = initialState \<and>
   matchReducer (matchReducer initialState UNDO) UNDO = matchReducer initialState UNDO"
proof -
  have empty: "currentSetPointHistory initialState = []"
    by (simp add: initialState_def)
  from undo_empty_history_noop [OF empty] empty show ?thesis
    by simp
qed

subsection \<open>The position resolver\<close>

text \<open>
  Claim C3. In a doubles call of \<^verbatim>\<open>getTeamPositions\<close> with a score other than 0--0, the
  pair of the side that does not serve is returned as it was passed in, and the serving
  side's pair is rebuilt from that side's own score: at an even score the server stands
  in the right slot and the partner in the left slot, at an odd score the other way round.
  (The server is the named player, or the team's first entry when the name is not on the
  team.)
\<close>

theorem positions_during_play:
  assumes "length (teamA team) = 2" and "length (teamB team) = 2"
    and "\<not> (pA = 0 \<and> pB = 0)"
  shows "let r = getTeamPositions (Some sd) team serverName receiverName pA pB;
             srv = resolveName (teamOf sd team) serverName;
             prt = partnerOf (teamOf sd team) srv
         in teamOf (otherSide sd) r = teamOf (otherSide sd) team \<and>
            length (teamOf sd r) = 2 \<and>
            (if even (scoreOf sd pA pB)
             then rightSlot sd r = srv \<and> leftSlot sd r = prt
             else leftSlot sd r = srv \<and> rightSlot sd r = prt)"
proof -
  obtain a1 a2 where A: "teamA team = [a1, a2]" using len2[OF assms(1)] by blast
  obtain b1 b2 where B: "teamB team = [b1, b2]" using len2[OF assms(2)] by blast
  from assms(3) have nz: "(pA = 0 \<and> pB = 0) = False" by simp
  show ?thesis
  proof (cases sd)
    case SideA
    then show ?thesis
      by (simp add: getTeamPositions_def A B nz Let_def js_rem_2_even at_pair_resolve
          at_pair_partner teamOf_def otherSide_def scoreOf_def rightSlot_def leftSlot_def
          del: indexOf.simps)
  next
    case SideB
    then show ?thesis
      by (simp add: getTeamPositions_def A B nz Let_def js_rem_2_even at_pair_resolve
          at_pair_partner teamOf_def otherSide_def scoreOf_def rightSlot_def leftSlot_def
          del: indexOf.simps)
  qed
qed

theorem positions_during_play_witness:
  "length (teamA doublesRoster) = 2 \<and> length (teamB doublesRoster) = 2 \<and>
   \<not> ((3::int) = 0 \<and> (2::int) = 0) \<and>
   (let r = getTeamPositions (Some SideA) doublesRoster (Name ''Abe'') (Name ''Bea'') 3 2
    in teamB r = [Name ''Bea'', Name ''Bob''] \<and>
       leftSlot SideA r = Name ''Abe'' \<and> rightSlot SideA r = Name ''Ann'')"
proof -
  have h1: "length (teamA doublesRoster) = 2" and h2: "length (teamB doublesRoster) = 2"
    by (simp_all add: doublesRoster_def)
  have h3: "\<not> ((3::int) = 0 \<and> (2::int) = 0)" by simp
  from positions_during_play [OF h1 h2 h3, of SideA "Name ''Abe''" "Name ''Bea''"] h1 h2
  show ?thesis
    by (simp add: Let_def teamOf_def otherSide_def scoreOf_def resolveName_def partnerOf_def
        doublesRoster_def)
qed

subsection \<open>Serve rotation\<close>

text \<open>
  Claim C4. For a state with a non-empty serve order and a point that does not complete
  the set: when the scoring side is not the side that served, the rotation index becomes
  (old index + 1) modulo the length of the order (the source's \<^verbatim>\<open>%\<close>, which is the
  mathematical modulo for the non-negative indices the reducer produces), the new server
  is the serve-order entry at that index, and the new serving side is A when team A's
  stored pair contains that server and B otherwise; when the scoring side is the side
  that served, index, server and serving side are unchanged.
\<close>

theorem serve_rotation_on_increment:
  assumes "serveOrder s \<noteq> []" and "\<not> completes s sd c"
  shows "let s' = matchReducer s (INCREMENT sd c time); n = int (length (serveOrder s)) in
     (if serverSide s \<noteq> Some sd
      then serveIndex s' = js_rem (serveIndex s + 1) n \<and>
           (0 \<le> serveIndex s \<longrightarrow>
              serveIndex s' = (serveIndex s + 1) mod n \<and>
              currentServer s' = serveOrder s ! nat (serveIndex s')) \<and>
           currentServer s' = at (serveOrder s) (serveIndex s') \<and>
           serverSide s' =
             Some (if currentServer s' \<in> set (teamA (players s)) then SideA else SideB)
      else serveIndex s' = serveIndex s \<and> currentServer s' = currentServer s \<and>
           serverSide s' = serverSide s)"
  using assms
  by (auto simp: increment_def isSetFinished_completes incrementPlay_def Let_def
      includes_name_def js_rem_nonneg at_def)

theorem serve_rotation_on_increment_witness:
  "serveOrder doublesStart \<noteq> [] \<and> \<not> completes doublesStart SideB 21 \<and>
   serveIndex doublesStart = 0 \<and>
   (let s' = matchReducer doublesStart (INCREMENT SideB 21 0)
    in serveIndex s' = 1 \<and> currentServer s' = Name ''Bob'' \<and> serverSide s' = Some SideB)"
proof -
  have h1: "serveOrder doublesStart \<noteq> []" and h2: "\<not> completes doublesStart SideB 21"
    by code_simp+
  have facts: "serveOrder doublesStart = [Name ''Abe'', Name ''Bob'', Name ''Ann'', Name ''Bea'']"
    "serveIndex doublesStart = 0" "serverSide doublesStart = Some SideA"
    "teamA (players doublesStart) = [Name ''Ann'', Name ''Abe'']"
    by code_simp+
  from serve_rotation_on_increment [OF h1 h2, of 0] h1 h2 show ?thesis
    by (simp add: Let_def facts js_rem_def at_def)
qed

subsection \<open>Statistics\<close>

lemma statsLoop_total:
  "totalPointsPlayed (stats (statsLoop sc h l)) = totalPointsPlayed (stats l)"
  by (induction sc h l rule: statsLoop.induct)
     (auto simp: Let_def streakStep_def gamePointStep_def)

text \<open>
  Claim C5, as amended. \<^verbatim>\<open>calculateGameStats\<close> reports \<^verbatim>\<open>totalPointsPlayed\<close> as the length
  of the point history (the number of snapshots, the initial 0--0 one included); the
  subtraction of one is done by the per-game view, which for a completed set (winner not
  null) prints that field minus one, the number of rallies.
\<close>

theorem total_points_played_is_history_length:
  "totalPointsPlayed (calculateGameStats g sc) = int (length (pointHistory g)) \<and>
   (winnerSide g \<noteq> None \<longrightarrow>
      shownTotalPointsPlayed g (calculateGameStats g sc) = int (length (pointHistory g)) - 1)"
  by (simp add: calculateGameStats_def statsLoop_total shownTotalPointsPlayed_def)

theorem total_points_played_is_history_length_witness:
  "(case setFinishData (dispatchAll singlesStart (rallies SideA 15)) of
      None \<Rightarrow> False
    | Some g \<Rightarrow>
        winnerSide g \<noteq> None \<and>
        totalPointsPlayed (calculateGameStats g 15) = int (length (pointHistory g)) \<and>
        shownTotalPointsPlayed g (calculateGameStats g 15) = int (length (pointHistory g)) - 1)"
proof -
  have "case setFinishData (dispatchAll singlesStart (rallies SideA 15)) of
          None \<Rightarrow> False | Some g \<Rightarrow> winnerSide g \<noteq> None"
    by code_simp
  with total_points_played_is_history_length [of _ 15] show ?thesis
    by (auto split: option.splits)
qed

text \<open>
  The claim as stated fails on the set that side A wins 15--0 in singles: its history
  holds 16 snapshots, starting at 0--0, and the statistics report 16 points played, not 15.
\<close>

theorem total_points_played_counterexample:
  "(case setFinishData (dispatchAll singlesStart (rallies SideA 15)) of
      None \<Rightarrow> False
    | Some g \<Rightarrow>
        ps_pointsA (hd (pointHistory g)) = 0 \<and> ps_pointsB (hd (pointHistory g)) = 0 \<and>
        int (length (pointHistory g)) - 1 = 15 \<and>
        totalPointsPlayed (calculateGameStats g 15) = 16)"
  by code_simp

subsection \<open>Defaults at the end of a set\<close>

text \<open>
  Claim C6, as amended. At a set-finishing \<^verbatim>\<open>INCREMENT\<close> the default next receiver is read
  from the losing side's pair as stored before the point: entry 0 of team B's pair when
  side A wins, entry 1 of team A's pair when side B wins a doubles set. (Team B's pair is
  stored [right, left] and team A's [left, right]: in doubles it is the loser's right-court
  player either way.)
\<close>

theorem default_next_receiver_right_court:
  assumes "completes s sd c"
  shows "let s' = matchReducer s (INCREMENT sd c time) in
    (case setFinishData s' of
       None \<Rightarrow> False
     | Some d \<Rightarrow>
        (winnerSide d = Some SideA \<longrightarrow> currentReceiver s' = at (teamB (players s)) 0) \<and>
        (winnerSide d = Some SideB \<and> length (teamA (players s)) = 2 \<longrightarrow>
           currentReceiver s' = teamA (players s) ! 1 \<and>
           currentReceiver s' = rightSlot SideA (players s)))"
  using assms
  by (simp add: increment_def isSetFinished_completes incrementFinish_def Let_def at_def
      rightSlot_def)

theorem default_next_receiver_right_court_witness:
  "completes (dispatchAll doublesStart (rallies SideB 14)) SideB 21 \<and>
   currentReceiver (matchReducer (dispatchAll doublesStart (rallies SideB 14))
      (INCREMENT SideB 21 0)) = Name ''Abe''"
proof -
  let ?s = "dispatchAll doublesStart (rallies SideB 14)"
  have h: "completes ?s SideB 21"
    by code_simp
  have facts: "teamA (players ?s) = [Name ''Ann'', Name ''Abe'']"
    "map_option winnerSide (setFinishData (matchReducer ?s (INCREMENT SideB 21 0)))
       = Some (Some SideB)"
    by code_simp+
  from default_next_receiver_right_court [OF h, of 0] h facts show ?thesis
    by (auto simp: Let_def split: option.splits)
qed

text \<open>
  The claim as stated fails when side B wins a doubles set: in the match started with Abe
  serving to Bea, after side B wins fifteen rallies in a row the stored pair of the losing
  side A is [Ann, Abe] before and after the last point (as in the roster), and the
  default next receiver is Abe, its entry 1, not its first entry Ann.
\<close>

theorem default_next_receiver_counterexample:
  "completes (dispatchAll doublesStart (rallies SideB 14)) SideB 21 \<and>
   teamA doublesRoster = [Name ''Ann'', Name ''Abe''] \<and>
   teamA (players (dispatchAll doublesStart (rallies SideB 14))) = [Name ''Ann'', Name ''Abe''] \<and>
   teamA (players (dispatchAll doublesStart (rallies SideB 15))) = [Name ''Ann'', Name ''Abe''] \<and>
   map_option winnerSide (setFinishData (dispatchAll doublesStart (rallies SideB 15)))
     = Some (Some SideB) \<and>
   currentReceiver (dispatchAll doublesStart (rallies SideB 15)) = Name ''Abe'' \<and>
   currentReceiver (dispatchAll doublesStart (rallies SideB 15))
     \<noteq> at (teamA (players (dispatchAll doublesStart (rallies SideB 14)))) 0"
  by code_simp

subsection \<open>The serve order built by \<^verbatim>\<open>START_MATCH\<close>\<close>

lemma startRotation_doubles:
  assumes "length (teamA roster) = 2" and "length (teamB roster) = 2"
  shows "startRotation roster fs fsn orn =
       [resolveName (teamOf fs roster) (Name fsn),
        partnerOf (teamOf (otherSide fs) roster)
          (resolveName (teamOf (otherSide fs) roster) (Name orn)),
        partnerOf (teamOf fs roster) (resolveName (teamOf fs roster) (Name fsn)),
        resolveName (teamOf (otherSide fs) roster) (Name orn)]"
proof -
  obtain a1 a2 where A: "teamA roster = [a1, a2]" using len2[OF assms(1)] by blast
  obtain b1 b2 where B: "teamB roster = [b1, b2]" using len2[OF assms(2)] by blast
  show ?thesis
    by (cases fs)
       (simp_all add: startRotation_def A B Let_def at_pair_resolve at_pair_partner
          teamOf_def otherSide_def del: indexOf.simps)
qed

lemma rotation_count:
  "count_list [resolveName [p, q] x, partnerOf [r, s] (resolveName [r, s] y),
               partnerOf [p, q] (resolveName [p, q] x), resolveName [r, s] y] z =
   count_list [p, q] z + count_list [r, s] z"
proof -
  have "count_list [resolveName [p, q] x, partnerOf [r, s] (resolveName [r, s] y),
               partnerOf [p, q] (resolveName [p, q] x), resolveName [r, s] y] z =
        count_list [resolveName [p, q] x, partnerOf [p, q] (resolveName [p, q] x)] z +
        count_list [resolveName [r, s] y, partnerOf [r, s] (resolveName [r, s] y)] z"
    by simp
  then show ?thesis by (simp only: count_pair)
qed

lemma startRotation_count:
  assumes "length (teamA roster) = 2" and "length (teamB roster) = 2"
  shows "count_list (startRotation roster fs fsn orn) p =
         count_list (teamA roster @ teamB roster) p"
proof -
  obtain a1 a2 where A: "teamA roster = [a1, a2]" using len2[OF assms(1)] by blast
  obtain b1 b2 where B: "teamB roster = [b1, b2]" using len2[OF assms(2)] by blast
  have split: "count_list ([a1, a2] @ [b1, b2]) p = count_list [a1, a2] p + count_list [b1, b2] p"
    by simp
  show ?thesis
    unfolding startRotation_doubles[OF assms] A B split
    by (cases fs)
       (simp_all add: teamOf_def otherSide_def A B rotation_count del: count_list.simps)
qed

lemma startRotation_singles:
  assumes "length (teamA roster) = 1" and "length (teamB roster) = 1"
  shows "startRotation roster fs fsn orn =
         [teamOf fs roster ! 0, teamOf (otherSide fs) roster ! 0]"
  using assms by (simp add: startRotation_def Let_def at_def teamOf_def otherSide_def)

lemma startMatch_order:
  "serveOrder (startMatch roster fs fsn orn tgt t0) = startRotation roster fs fsn orn"
  by (simp add: startMatch_def Let_def initialState_def)

lemma startMatch_index:
  "serveIndex (startMatch roster fs fsn orn tgt t0) =
     positionOr0 (startRotation roster fs fsn orn) (Name fsn)"
  by (simp add: startMatch_def Let_def initialState_def indexOf_takeWhile positionOr0_def)

lemma pair_distinct:
  "p \<noteq> q \<Longrightarrow> resolveName [p, q] x \<noteq> partnerOf [p, q] (resolveName [p, q] x)"
  by (auto simp: resolveName_def partnerOf_def)

lemma four_distinct:
  assumes S: "{s, ps} = P" and R: "{r, pr} = Q" and "s \<noteq> ps" and "r \<noteq> pr" and dj: "P \<inter> Q = {}"
  shows "distinct [s, pr, ps, r] \<and> set [s, pr, ps, r] = P \<union> Q"
proof -
  from S have ms: "s \<in> P" "ps \<in> P" by blast+
  from R have mr: "r \<in> Q" "pr \<in> Q" by blast+
  from ms mr dj have "s \<noteq> pr" "s \<noteq> r" "pr \<noteq> ps" "ps \<noteq> r" by blast+
  with assms(3,4) have d: "distinct [s, pr, ps, r]" by simp
  have "set [s, pr, ps, r] = {s, ps} \<union> {r, pr}" by auto
  with S R d show ?thesis by simp
qed

lemma startRotation_distinct:
  assumes "length (teamA roster) = 2" and "length (teamB roster) = 2"
    and "distinct (teamA roster @ teamB roster)"
  shows "distinct (startRotation roster fs fsn orn) \<and>
         set (startRotation roster fs fsn orn) = set (teamA roster) \<union> set (teamB roster)"
proof -
  obtain a1 a2 where A: "teamA roster = [a1, a2]" using len2[OF assms(1)] by blast
  obtain b1 b2 where B: "teamB roster = [b1, b2]" using len2[OF assms(2)] by blast
  from assms(3) have ne: "a1 \<noteq> a2" "b1 \<noteq> b2"
    and dj: "{a1, a2} \<inter> {b1, b2} = {}" "{b1, b2} \<inter> {a1, a2} = {}"
    by (auto simp: A B)
  have sets: "set (teamA roster) = {a1, a2}" "set (teamB roster) = {b1, b2}"
    by (simp_all add: A B)
  show ?thesis
  proof (cases fs)
    case SideA
    then have "startRotation roster fs fsn orn =
        [resolveName [a1, a2] (Name fsn), partnerOf [b1, b2] (resolveName [b1, b2] (Name orn)),
         partnerOf [a1, a2] (resolveName [a1, a2] (Name fsn)), resolveName [b1, b2] (Name orn)]"
      by (simp add: startRotation_doubles[OF assms(1,2)] teamOf_def otherSide_def A B)
    with four_distinct[OF pair_members(1) pair_members(1) pair_distinct[OF ne(1)]
        pair_distinct[OF ne(2)] dj(1), of "Name fsn" "Name orn"] sets
    show ?thesis by simp
  next
    case SideB
    then have "startRotation roster fs fsn orn =
        [resolveName [b1, b2] (Name fsn), partnerOf [a1, a2] (resolveName [a1, a2] (Name orn)),
         partnerOf [b1, b2] (resolveName [b1, b2] (Name fsn)), resolveName [a1, a2] (Name orn)]"
      by (simp add: startRotation_doubles[OF assms(1,2)] teamOf_def otherSide_def A B)
    with four_distinct[OF pair_members(1) pair_members(1) pair_distinct[OF ne(2)]
        pair_distinct[OF ne(1)] dj(2), of "Name fsn" "Name orn"] sets
    show ?thesis by (simp add: Un_commute)
  qed
qed

text \<open>
  Claim C7. \<^verbatim>\<open>START_MATCH\<close> on a doubles roster (two players a side) builds the serve order
  [server, partner of receiver, partner of server, receiver], of length 4, in which every
  player occurs as often as in the roster: when the four names differ, the order holds
  exactly the four roster players, each once. On a singles roster it builds
  [server, receiver], the sole players of the serving and of the other side. The serve
  index is the position of the first occurrence of \<^verbatim>\<open>firstServerName\<close> in that order,
  and 0 when the name does not occur. (Server and receiver are the named players, or the
  first entry of their team when the name is not on it.)
\<close>

theorem start_match_serve_order:
  "let s = matchReducer s0 (START_MATCH roster fs fsn orn tgt t0);
       sTeam = teamOf fs roster; rTeam = teamOf (otherSide fs) roster;
       srv = resolveName sTeam (Name fsn); rcv = resolveName rTeam (Name orn)
   in (length (teamA roster) = 2 \<and> length (teamB roster) = 2 \<longrightarrow>
         serveOrder s = [srv, partnerOf rTeam rcv, partnerOf sTeam srv, rcv] \<and>
         length (serveOrder s) = 4 \<and>
         (\<forall>p. count_list (serveOrder s) p = count_list (teamA roster @ teamB roster) p) \<and>
         (distinct (teamA roster @ teamB roster) \<longrightarrow>
            distinct (serveOrder s) \<and>
            set (serveOrder s) = set (teamA roster) \<union> set (teamB roster))) \<and>
      (length (teamA roster) = 1 \<and> length (teamB roster) = 1 \<longrightarrow>
         serveOrder s = [sTeam ! 0, rTeam ! 0]) \<and>
      serveIndex s = positionOr0 (serveOrder s) (Name fsn)"
proof -
  let ?rot = "startRotation roster fs fsn orn"
  let ?order = "[resolveName (teamOf fs roster) (Name fsn),
         partnerOf (teamOf (otherSide fs) roster)
           (resolveName (teamOf (otherSide fs) roster) (Name orn)),
         partnerOf (teamOf fs roster) (resolveName (teamOf fs roster) (Name fsn)),
         resolveName (teamOf (otherSide fs) roster) (Name orn)]"
  have d: "length (teamA roster) = 2 \<and> length (teamB roster) = 2 \<longrightarrow>
      ?rot = ?order \<and> length ?rot = 4 \<and>
      (\<forall>p. count_list ?rot p = count_list (teamA roster @ teamB roster) p) \<and>
      (distinct (teamA roster @ teamB roster) \<longrightarrow>
         distinct ?rot \<and> set ?rot = set (teamA roster) \<union> set (teamB roster))"
  proof
    assume h: "length (teamA roster) = 2 \<and> length (teamB roster) = 2"
    from h have l: "length ?rot = 4" by (simp add: startRotation_doubles)
    from h startRotation_doubles[of roster fs fsn orn] startRotation_count[of roster fs fsn orn]
      startRotation_distinct[of roster fs fsn orn] l
    show "?rot = ?order \<and> length ?rot = 4 \<and>
      (\<forall>p. count_list ?rot p = count_list (teamA roster @ teamB roster) p) \<and>
      (distinct (teamA roster @ teamB roster) \<longrightarrow>
         distinct ?rot \<and> set ?rot = set (teamA roster) \<union> set (teamB roster))"
      by blast
  qed
  have s1: "length (teamA roster) = 1 \<and> length (teamB roster) = 1 \<longrightarrow>
      ?rot = [teamOf fs roster ! 0, teamOf (otherSide fs) roster ! 0]"
    using startRotation_singles[of roster fs fsn orn] by blast
  show ?thesis
    unfolding Let_def matchReducer.simps startMatch_order startMatch_index
    using d s1 by blast
qed

theorem start_match_serve_order_witness:
  "length (teamA doublesRoster) = 2 \<and> length (teamB doublesRoster) = 2 \<and>
   serveOrder doublesStart = [Name ''Abe'', Name ''Bob'', Name ''Ann'', Name ''Bea''] \<and>
   serveIndex doublesStart = 0 \<and>
   length (teamA singlesRoster) = 1 \<and> length (teamB singlesRoster) = 1 \<and>
   serveOrder singlesStart = [Name ''Ann'', Name ''Bob''] \<and>
   serveIndex singlesStart = 0"
proof -
  note d = start_match_serve_order
    [of initialState doublesRoster SideA "''Abe''" "''Bea''" "Some 15" 0]
  note s = start_match_serve_order
    [of initialState singlesRoster SideA "''Ann''" "''Bob''" "Some 15" 0]
  from d have "serveOrder doublesStart = [Name ''Abe'', Name ''Bob'', Name ''Ann'', Name ''Bea'']
      \<and> serveIndex doublesStart = 0"
    by (simp add: Let_def doublesStart_def doublesRoster_def teamOf_def otherSide_def
        resolveName_def partnerOf_def positionOr0_def)
  moreover from s have "serveOrder singlesStart = [Name ''Ann'', Name ''Bob'']
      \<and> serveIndex singlesStart = 0"
    by (simp add: Let_def singlesStart_def singlesRoster_def teamOf_def otherSide_def
        positionOr0_def)
  ultimately show ?thesis
    by (simp add: doublesRoster_def singlesRoster_def)
qed

subsection \<open>The receiver offsets\<close>

lemma offsets_step:
  "receiverOffsetA s = 0 \<Longrightarrow> receiverOffsetB s = 0 \<Longrightarrow>
   receiverOffsetA (matchReducer s a) = 0 \<and> receiverOffsetB (matchReducer s a) = 0"
  by (cases a)
     (simp_all add: startMatch_def initialState_def increment_def incrementFinish_def
      incrementPlay_def undo_def continueNextSet_def Let_def)

lemma offsets_dispatch:
  "receiverOffsetA s = 0 \<Longrightarrow> receiverOffsetB s = 0 \<Longrightarrow>
   receiverOffsetA (foldl matchReducer s acts) = 0 \<and>
   receiverOffsetB (foldl matchReducer s acts) = 0"
  by (induction acts arbitrary: s) (simp_all add: offsets_step)

lemma withOffsets_sel:
  "pointsA (withOffsets x y s) = pointsA s" "pointsB (withOffsets x y s) = pointsB s"
  "setsA (withOffsets x y s) = setsA s" "setsB (withOffsets x y s) = setsB s"
  "players (withOffsets x y s) = players s"
  "currentSetPointHistory (withOffsets x y s) = currentSetPointHistory s"
  "matchHistory (withOffsets x y s) = matchHistory s"
  "serverSide (withOffsets x y s) = serverSide s"
  "currentServer (withOffsets x y s) = currentServer s"
  "currentReceiver (withOffsets x y s) = currentReceiver s"
  "nextServer (withOffsets x y s) = nextServer s"
  "serveOrder (withOffsets x y s) = serveOrder s"
  "serveIndex (withOffsets x y s) = serveIndex s"
  "scoringSystem (withOffsets x y s) = scoringSystem s"
  "currentSetStartTime (withOffsets x y s) = currentSetStartTime s"
  "setFinishData (withOffsets x y s) = setFinishData s"
  "lastTwoPointWinners (withOffsets x y s) = lastTwoPointWinners s"
  by (simp_all add: withOffsets_def)

lemma offsets_isSetFinished: "isSetFinished (withOffsets x y s) sd c = isSetFinished s sd c"
  by (simp add: isSetFinished_def newPointsA_def newPointsB_def withOffsets_sel)

lemma offsets_snapshot: "createSnapshot (withOffsets x y s) = createSnapshot s"
  by (simp add: createSnapshot_def withOffsets_sel)

lemma offsets_default: "defaultNextServer (withOffsets x y s) l w = defaultNextServer s l w"
  unfolding defaultNextServer_def withOffsets_sel by (rule refl)

lemma offsets_order: "nextServeOrder (withOffsets x y s) a b = nextServeOrder s a b"
  unfolding nextServeOrder_def withOffsets_sel by (rule refl)

lemma offsets_finish:
  "incrementFinish (withOffsets x y s) sd t = withOffsets x y (incrementFinish s sd t)"
  unfolding incrementFinish_def offsets_snapshot offsets_default newPointsA_def newPointsB_def
    withOffsets_sel
  by (simp add: withOffsets_def Let_def)

lemma offsets_play: "incrementPlay (withOffsets x y s) sd = withOffsets x y (incrementPlay s sd)"
  unfolding incrementPlay_def offsets_snapshot newPointsA_def newPointsB_def withOffsets_sel
  by (simp add: withOffsets_def Let_def)

lemma offsets_undo: "undo (withOffsets x y s) = withOffsets x y (undo s)"
  unfolding undo_def withOffsets_sel
  by (simp add: withOffsets_def Let_def)

lemma offsets_continue:
  "continueNextSet (withOffsets x y s) t a b = withOffsets x y (continueNextSet s t a b)"
  unfolding continueNextSet_def offsets_order withOffsets_sel
  by (simp add: withOffsets_def Let_def)

lemma offsets_twice: "withOffsets a b (withOffsets x y s) = withOffsets a b s"
  by (simp add: withOffsets_def)

lemma offsets_unread:
  "withOffsets 0 0 (matchReducer (withOffsets x y s) a) = withOffsets 0 0 (matchReducer s a)"
proof (cases a)
  case (INCREMENT sd c t)
  then show ?thesis
    by (simp add: increment_def offsets_isSetFinished offsets_finish offsets_play offsets_twice)
next
  case UNDO
  then show ?thesis by (simp add: offsets_undo offsets_twice)
next
  case (CONTINUE_NEXT_SET t a b)
  then show ?thesis by (simp add: offsets_continue offsets_twice)
qed (simp_all add: withOffsets_def)

text \<open>
  Claim C10. In every state reached from the initial state by any list of reducer actions,
  \<^verbatim>\<open>receiverOffsetA\<close> and \<^verbatim>\<open>receiverOffsetB\<close> are 0; and no reducer case reads them: the
  state a case returns is, offsets aside, the same whatever the two offsets hold.
\<close>

theorem receiver_offsets_stay_zero:
  "receiverOffsetA (dispatchAll initialState acts) = 0 \<and>
   receiverOffsetB (dispatchAll initialState acts) = 0 \<and>
   withOffsets 0 0 (matchReducer (withOffsets x y s) a) = withOffsets 0 0 (matchReducer s a)"
proof -
  have "receiverOffsetA initialState = 0" "receiverOffsetB initialState = 0"
    by (simp_all add: initialState_def)
  then show ?thesis
    unfolding dispatchAll_def using offsets_dispatch offsets_unread by blast
qed

subsection \<open>Server and receiver stand on opposite sides\<close>

lemma valid_shape:
  "validRoster r \<Longrightarrow>
     length (teamA r) = 1 \<and> length (teamB r) = 1 \<or> length (teamA r) = 2 \<and> length (teamB r) = 2"
  by (simp add: validRoster_def)

lemma valid_disjoint: "validRoster r \<Longrightarrow> x \<in> set (teamA r) \<Longrightarrow> x \<notin> set (teamB r)"
  by (auto simp: validRoster_def)

lemma valid_defined:
  "validRoster r \<Longrightarrow> x \<in> set (teamA r) \<union> set (teamB r) \<Longrightarrow> x \<noteq> Undefined"
  by (auto simp: validRoster_def list_all_iff isName_def)

lemma sameTeams_refl: "sameTeams r r"
  by (simp add: sameTeams_def)

lemma defaultNextServer_in: "w \<noteq> [] \<Longrightarrow> defaultNextServer s l w \<in> set w"
  by (simp add: defaultNextServer_def Let_def includes_name_def at0_in)

lemma facing_differ: "validRoster r \<Longrightarrow> facing r ss srv rcv \<Longrightarrow> rcv \<noteq> srv"
  by (cases ss)
     (auto simp: facing_def teamOf_def otherSide_def dest: valid_disjoint split: if_splits)

lemma pending_differ: "validRoster r \<Longrightarrow> pendingOk r srv rcv \<Longrightarrow> rcv \<noteq> srv"
  using valid_disjoint[of r srv] valid_defined[of r srv]
  by (auto simp: pendingOk_def)

lemma inv_differ: "validRoster r \<Longrightarrow> matchInv r s \<Longrightarrow> currentReceiver s \<noteq> currentServer s"
  by (cases "setFinishData s = None") (auto simp: matchInv_def dest: facing_differ pending_differ)

text \<open>The resolver only rearranges each pair.\<close>

lemma getTeamPositions_pairs:
  assumes "teamA p = [a1, a2]" and "teamB p = [b1, b2]"
  shows "set (teamA (getTeamPositions ss p srv rcv x y)) = {a1, a2} \<and>
         set (teamB (getTeamPositions ss p srv rcv x y)) = {b1, b2} \<and>
         length (teamA (getTeamPositions ss p srv rcv x y)) = 2 \<and>
         length (teamB (getTeamPositions ss p srv rcv x y)) = 2"
  unfolding getTeamPositions_def assms Let_def
  by (simp add: at_pair_resolve at_pair_partner pair_members del: indexOf.simps)

lemma getTeamPositions_sameTeams:
  assumes "sameTeams r p" and "length (teamA r) = 2" and "length (teamB r) = 2"
  shows "sameTeams r (getTeamPositions ss p srv rcv x y)"
proof -
  from assms have "length (teamA p) = 2" "length (teamB p) = 2"
    by (simp_all add: sameTeams_def)
  then obtain a1 a2 b1 b2 where ab: "teamA p = [a1, a2]" "teamB p = [b1, b2]"
    using len2 by blast
  from getTeamPositions_pairs[OF ab, of ss srv rcv x y] assms ab show ?thesis
    by (simp add: sameTeams_def)
qed

lemma positions_step:
  assumes "validRoster r" and "sameTeams r p"
  shows "sameTeams r (if length (teamA p) = 1 then p else getTeamPositions ss p srv rcv x y)"
proof (cases "length (teamA p) = 1")
  case True
  with assms show ?thesis by simp
next
  case False
  with assms valid_shape[OF assms(1)] have "length (teamA r) = 2" "length (teamB r) = 2"
    by (auto simp: sameTeams_def)
  with False assms show ?thesis by (simp add: getTeamPositions_sameTeams)
qed

text \<open>\<^verbatim>\<open>UNDO\<close> keeps the invariant: the restored snapshot was taken in play.\<close>

lemma undo_inv:
  assumes "matchInv r s"
  shows "matchInv r (undo s)"
proof (cases "currentSetPointHistory s = []")
  case True
  with assms show ?thesis by (simp add: undo_def)
next
  case False
  with assms have open_set: "setFinishData s = None"
    by (auto simp: matchInv_def split: if_splits)
  from False obtain h p where hp: "currentSetPointHistory s = h @ [p]"
    by (metis append_butlast_last_id)
  from assms open_set hp have "snapshotOk r p" "list_all (snapshotOk r) h"
    by (simp_all add: matchInv_def)
  with assms open_set hp show ?thesis
    by (simp add: undo_def matchInv_def snapshotOk_def Let_def)
qed

lemma snapshot_inv:
  "matchInv r s \<Longrightarrow> setFinishData s = None \<Longrightarrow> snapshotOk r (createSnapshot s)"
  by (simp add: matchInv_def snapshotOk_def createSnapshot_def sameTeams_def)

text \<open>A point in play.\<close>

lemma play_frame:
  "serveOrder (incrementPlay s sd) = serveOrder s"
  "setFinishData (incrementPlay s sd) = setFinishData s"
  "currentSetPointHistory (incrementPlay s sd) = currentSetPointHistory s @ [createSnapshot s]"
  "players (incrementPlay s sd) =
     (if length (teamA (players s)) = 1 then players s
      else getTeamPositions (Some sd) (players s) (currentServer (incrementPlay s sd))
             (currentReceiver s) (newPointsA s sd) (newPointsB s sd))"
  by (simp_all add: incrementPlay_def Let_def)

lemma play_index: "0 \<le> serveIndex s \<Longrightarrow> 0 \<le> serveIndex (incrementPlay s sd)"
  by (simp add: incrementPlay_def Let_def js_rem_nonneg)

lemma play_receiver:
  "currentReceiver (incrementPlay s sd) \<in>
     {at (teamOf (otherSide (the (serverSide (incrementPlay s sd))))
           (players (incrementPlay s sd))) 0,
      at (teamOf (otherSide (the (serverSide (incrementPlay s sd))))
           (players (incrementPlay s sd))) 1} \<and>
   (length (teamA (players s)) = 1 \<longrightarrow>
     currentReceiver (incrementPlay s sd) =
       at (teamOf (otherSide (the (serverSide (incrementPlay s sd))))
            (players (incrementPlay s sd))) 0)"
  by (simp add: incrementPlay_def Let_def teamOf_def otherSide_def)

lemma play_server:
  assumes "set (serveOrder s) \<subseteq> set (teamA r) \<union> set (teamB r)"
    and "0 \<le> serveIndex s" and "set (teamA (players s)) = set (teamA r)"
    and "facing r (serverSide s) (currentServer s) rcv"
  shows "\<exists>nd. serverSide (incrementPlay s sd) = Some nd \<and>
              currentServer (incrementPlay s sd) \<in> set (teamOf nd r)"
proof (cases "Some sd \<noteq> serverSide s \<and> serveOrder s \<noteq> []")
  case True
  let ?i = "js_rem (serveIndex s + 1) (int (length (serveOrder s)))"
  from True assms(2) have "0 \<le> ?i \<and> ?i < int (length (serveOrder s))"
    by (simp add: js_rem_nonneg)
  then have "at (serveOrder s) ?i \<in> set (serveOrder s)"
    by (simp add: at_in_set)
  with assms(1) have "at (serveOrder s) ?i \<in> set (teamA r) \<union> set (teamB r)"
    by blast
  with True assms(3) show ?thesis
    by (auto simp: incrementPlay_def Let_def includes_name_def teamOf_def)
next
  case False
  from assms(4) obtain od where "serverSide s = Some od" "currentServer s \<in> set (teamOf od r)"
    by (cases "serverSide s") (auto simp: facing_def)
  with False show ?thesis
    by (auto simp: incrementPlay_def Let_def)
qed

lemma play_inv:
  assumes v: "validRoster r" and inv: "matchInv r s" and open_set: "setFinishData s = None"
  shows "matchInv r (incrementPlay s sd)"
proof -
  let ?s' = "incrementPlay s sd"
  from inv open_set have st: "sameTeams r (players s)"
    and ord: "set (serveOrder s) \<subseteq> set (teamA r) \<union> set (teamB r)" "serveOrder s \<noteq> []"
    and idx: "0 \<le> serveIndex s"
    and fc: "facing r (serverSide s) (currentServer s) (currentReceiver s)"
    and hist: "list_all (snapshotOk r) (currentSetPointHistory s)"
    by (simp_all add: matchInv_def)
  have st': "sameTeams r (players ?s')"
    unfolding play_frame by (rule positions_step[OF v st])
  from st have "set (teamA (players s)) = set (teamA r)" by (simp add: sameTeams_def)
  from play_server[OF ord(1) idx this fc, of sd]
  obtain nd where nd: "serverSide ?s' = Some nd" "currentServer ?s' \<in> set (teamOf nd r)"
    by blast
  let ?opp = "teamOf (otherSide nd) (players ?s')"
  from st' have opp_set: "set ?opp = set (teamOf (otherSide nd) r)"
    and opp_len: "length ?opp = length (teamOf (otherSide nd) r)"
    and lenA: "length (teamA (players s)) = length (teamA r)"
    using st by (simp_all add: sameTeams_def teamOf_def)
  have "currentReceiver ?s' \<in> set ?opp"
  proof (cases "length (teamA r) = 1")
    case True
    with valid_shape[OF v] have "length (teamOf (otherSide nd) r) = 1"
      by (auto simp: teamOf_def)
    with opp_len have "?opp \<noteq> []" by auto
    then have "at ?opp 0 \<in> set ?opp" by (rule at0_in)
    moreover from True lenA play_receiver[of s sd] nd(1)
    have "currentReceiver ?s' = at ?opp 0" by simp
    ultimately show ?thesis by simp
  next
    case False
    with valid_shape[OF v] have "length (teamOf (otherSide nd) r) = 2"
      by (auto simp: teamOf_def)
    with opp_len have l2: "length ?opp = 2" by simp
    then have "at ?opp 0 \<in> set ?opp" "at ?opp 1 \<in> set ?opp"
      by (simp_all add: at_def)
    with play_receiver[of s sd] nd(1) show ?thesis by auto
  qed
  with opp_set have rc: "currentReceiver ?s' \<in> set (teamOf (otherSide nd) r)" by simp
  from nd rc have fc': "facing r (serverSide ?s') (currentServer ?s') (currentReceiver ?s')"
    by (simp add: facing_def)
  from hist snapshot_inv[OF inv open_set]
  have hist': "list_all (snapshotOk r) (currentSetPointHistory ?s')"
    by (simp add: play_frame)
  from st' ord play_index[OF idx, of sd] open_set fc' hist' show ?thesis
    by (simp add: matchInv_def play_frame)
qed

text \<open>The point that finishes a set.\<close>

lemma finish_frame:
  "serveOrder (incrementFinish s sd t) = serveOrder s"
  "serveIndex (incrementFinish s sd t) = serveIndex s"
  "setFinishData (incrementFinish s sd t) \<noteq> None"
  "currentSetPointHistory (incrementFinish s sd t) = []"
  by (simp_all add: incrementFinish_def Let_def)

lemma finish_players:
  "\<exists>ss srv rcv x y. players (incrementFinish s sd t) =
     (if length (teamA (players s)) = 1 then players s
      else getTeamPositions ss (players s) srv rcv x y)"
  by (simp add: incrementFinish_def Let_def) blast

lemma finish_server:
  "\<exists>l. currentServer (incrementFinish s sd t) =
     defaultNextServer s l
       (if newPointsA s sd > newPointsB s sd then teamA (players s) else teamB (players s))"
  by (simp add: incrementFinish_def Let_def) blast

lemma finish_receiver:
  "currentReceiver (incrementFinish s sd t) =
     (if newPointsA s sd > newPointsB s sd then at (teamB (players s)) 0
      else at (teamA (players s)) 1)"
  by (simp add: incrementFinish_def Let_def)

lemma finish_pending:
  assumes v: "validRoster r" and st: "sameTeams r (players s)"
  shows "pendingOk r (currentServer (incrementFinish s sd t))
           (currentReceiver (incrementFinish s sd t))"
proof -
  let ?A = "teamA (players s)" and ?B = "teamB (players s)"
  from st have sets: "set ?A = set (teamA r)" "set ?B = set (teamB r)"
    and lens: "length ?A = length (teamA r)" "length ?B = length (teamB r)"
    by (simp_all add: sameTeams_def)
  from valid_shape[OF v] lens have ne: "?A \<noteq> []" "?B \<noteq> []"
    by auto
  from finish_server[of s sd t] obtain l where
    srv: "currentServer (incrementFinish s sd t) =
       defaultNextServer s l (if newPointsA s sd > newPointsB s sd then ?A else ?B)"
    by blast
  show ?thesis
  proof (cases "newPointsA s sd > newPointsB s sd")
    case True
    with srv defaultNextServer_in[OF ne(1), of s l] sets
    have "currentServer (incrementFinish s sd t) \<in> set (teamA r)" by simp
    moreover from True at0_in[OF ne(2)] sets
    have "currentReceiver (incrementFinish s sd t) \<in> set (teamB r)"
      by (simp add: finish_receiver)
    ultimately show ?thesis by (simp add: pendingOk_def)
  next
    case False
    with srv defaultNextServer_in[OF ne(2), of s l] sets
    have "currentServer (incrementFinish s sd t) \<in> set (teamB r)" by simp
    moreover have "at ?A 1 \<in> set ?A \<or> at ?A 1 = Undefined"
      by (simp add: at_def)
    with False sets
    have "currentReceiver (incrementFinish s sd t) \<in> set (teamA r) \<or>
          currentReceiver (incrementFinish s sd t) = Undefined"
      by (simp add: finish_receiver)
    ultimately show ?thesis by (simp add: pendingOk_def)
  qed
qed

lemma finish_inv:
  assumes v: "validRoster r" and inv: "matchInv r s"
  shows "matchInv r (incrementFinish s sd t)"
proof -
  from inv have st: "sameTeams r (players s)"
    and ord: "set (serveOrder s) \<subseteq> set (teamA r) \<union> set (teamB r)" "serveOrder s \<noteq> []"
    and idx: "0 \<le> serveIndex s"
    by (simp_all add: matchInv_def)
  from finish_players[of s sd t] positions_step[OF v st]
  have st': "sameTeams r (players (incrementFinish s sd t))" by auto
  from st' ord idx finish_pending[OF v st, of sd t] finish_frame(3)[of s sd t] show ?thesis
    by (simp add: matchInv_def finish_frame)
qed

lemma increment_inv:
  assumes "validRoster r" and "matchInv r s" and "setFinishData s = None"
  shows "matchInv r (increment s sd c t)"
  using assms by (simp add: increment_def play_inv finish_inv)

text \<open>Starting the next set.\<close>

lemma at_partner_in:
  assumes "length xs = 2"
  shows "at xs (1 - max 0 (indexOf xs x)) \<in> set xs"
proof -
  from len2[OF assms] obtain p q where pq: "xs = [p, q]" by blast
  show ?thesis unfolding pq at_pair_partner by (simp add: partnerOf_def)
qed

lemma at_resolve_in:
  assumes "length xs = 2"
  shows "at xs (max 0 (indexOf xs x)) \<in> set xs"
proof -
  from len2[OF assms] obtain p q where pq: "xs = [p, q]" by blast
  show ?thesis unfolding pq at_pair_resolve by (simp add: resolveName_def)
qed

lemma nextServeOrder_members:
  assumes v: "validRoster r" and st: "sameTeams r (players s)"
    and opp: "oppositeSides (players s) (Name srv) (Name rcv)"
  shows "set (nextServeOrder s srv rcv) \<subseteq> set (teamA r) \<union> set (teamB r) \<and>
         nextServeOrder s srv rcv \<noteq> []"
proof -
  let ?A = "teamA (players s)" and ?B = "teamB (players s)"
  from st have sets: "set ?A = set (teamA r)" "set ?B = set (teamB r)"
    and lens: "length ?A = length (teamA r)" "length ?B = length (teamB r)"
    by (simp_all add: sameTeams_def)
  from opp sets have names: "Name srv \<in> set (teamA r) \<union> set (teamB r)"
      "Name rcv \<in> set (teamA r) \<union> set (teamB r)"
    by (auto simp: oppositeSides_def)
  show ?thesis
  proof (cases "length (teamA r) = 1")
    case True
    with lens names show ?thesis by (simp add: nextServeOrder_def Let_def)
  next
    case False
    with valid_shape[OF v] lens have l2: "length ?A = 2" "length ?B = 2"
      by auto
    have "\<And>x. at ?A (1 - max 0 (indexOf ?A x)) \<in> set (teamA r)"
         "\<And>x. at ?B (1 - max 0 (indexOf ?B x)) \<in> set (teamB r)"
      using at_partner_in[OF l2(1)] at_partner_in[OF l2(2)] sets by auto
    with l2 names show ?thesis
      by (simp add: nextServeOrder_def Let_def del: indexOf.simps)
  qed
qed

lemma continue_frame:
  "serveOrder (continueNextSet s t srv rcv) = nextServeOrder s srv rcv"
  "serveIndex (continueNextSet s t srv rcv) = 0"
  "setFinishData (continueNextSet s t srv rcv) = None"
  "currentSetPointHistory (continueNextSet s t srv rcv) = []"
  "currentServer (continueNextSet s t srv rcv) = Name srv"
  "currentReceiver (continueNextSet s t srv rcv) = Name rcv"
  "serverSide (continueNextSet s t srv rcv) =
     Some (if Name srv \<in> set (teamA (players s)) then SideA else SideB)"
  "players (continueNextSet s t srv rcv) =
     (if length (teamA (players s)) = 1 then players s
      else getTeamPositions (serverSide s) (players s) (Name srv) (Name rcv) 0 0)"
  by (simp_all add: continueNextSet_def Let_def includes_name_def)

lemma continue_inv:
  assumes v: "validRoster r" and inv: "matchInv r s"
    and opp: "oppositeSides (players s) (Name srv) (Name rcv)"
  shows "matchInv r (continueNextSet s t srv rcv)"
proof -
  from inv have st: "sameTeams r (players s)" by (simp add: matchInv_def)
  then have sets: "set (teamA (players s)) = set (teamA r)"
      "set (teamB (players s)) = set (teamB r)"
    by (simp_all add: sameTeams_def)
  have st': "sameTeams r (players (continueNextSet s t srv rcv))"
    unfolding continue_frame by (rule positions_step[OF v st])
  from opp sets valid_disjoint[OF v]
  have fc: "facing r (Some (if Name srv \<in> set (teamA (players s)) then SideA else SideB))
              (Name srv) (Name rcv)"
    by (auto simp: facing_def oppositeSides_def teamOf_def otherSide_def)
  from st' nextServeOrder_members[OF v st opp] fc show ?thesis
    by (simp add: matchInv_def continue_frame)
qed

text \<open>The start of the match.\<close>

lemma startRotation_members:
  assumes v: "validRoster r"
  shows "set (startRotation r fs fsn orn) \<subseteq> set (teamA r) \<union> set (teamB r) \<and>
         startRotation r fs fsn orn \<noteq> []"
proof (cases "length (teamA r) = 1")
  case True
  with valid_shape[OF v] have "teamA r \<noteq> []" "teamB r \<noteq> []" by auto
  then have "at (teamA r) 0 \<in> set (teamA r)" "at (teamB r) 0 \<in> set (teamB r)"
    by (simp_all add: at0_in)
  with True show ?thesis by (simp add: startRotation_def Let_def)
next
  case False
  with valid_shape[OF v] have l2: "length (teamA r) = 2" "length (teamB r) = 2" by auto
  note mem = at_partner_in[OF l2(1)] at_partner_in[OF l2(2)]
    at_resolve_in[OF l2(1)] at_resolve_in[OF l2(2)]
  from l2 show ?thesis
    by (cases fs) (simp_all add: startRotation_def Let_def mem del: indexOf.simps)
qed

lemma start_frame:
  "serveOrder (startMatch r fs fsn orn tgt t0) = startRotation r fs fsn orn"
  "0 \<le> serveIndex (startMatch r fs fsn orn tgt t0)"
  "setFinishData (startMatch r fs fsn orn tgt t0) = None"
  "currentSetPointHistory (startMatch r fs fsn orn tgt t0) = []"
  "serverSide (startMatch r fs fsn orn tgt t0) = Some fs"
  "currentServer (startMatch r fs fsn orn tgt t0) =
     (if length (teamA r) = 1 then at (teamOf fs r) 0 else Name fsn)"
  "currentReceiver (startMatch r fs fsn orn tgt t0) =
     (if length (teamA r) = 1 then at (teamOf (otherSide fs) r) 0 else Name orn)"
  "players (startMatch r fs fsn orn tgt t0) =
     (if length (teamA r) = 1 then r
      else getTeamPositions (Some fs) r (Name fsn) (Name orn) 0 0)"
  by (simp_all add: startMatch_def Let_def initialState_def teamOf_def otherSide_def)

lemma start_inv:
  assumes vs: "validStart r fs fsn orn"
  shows "matchInv r (startMatch r fs fsn orn tgt t0)"
proof -
  from vs have v: "validRoster r" by (simp add: validStart_def)
  have st': "sameTeams r (players (startMatch r fs fsn orn tgt t0))"
    unfolding start_frame by (rule positions_step[OF v sameTeams_refl])
  have fc: "facing r (Some fs)
      (if length (teamA r) = 1 then at (teamOf fs r) 0 else Name fsn)
      (if length (teamA r) = 1 then at (teamOf (otherSide fs) r) 0 else Name orn)"
  proof (cases "length (teamA r) = 1")
    case True
    with valid_shape[OF v] have "teamOf fs r \<noteq> []" "teamOf (otherSide fs) r \<noteq> []"
      by (auto simp: teamOf_def)
    then have "at (teamOf fs r) 0 \<in> set (teamOf fs r)"
      "at (teamOf (otherSide fs) r) 0 \<in> set (teamOf (otherSide fs) r)"
      by (simp_all add: at0_in)
    with True show ?thesis by (simp add: facing_def)
  next
    case False
    with vs show ?thesis by (simp add: facing_def validStart_def)
  qed
  from st' startRotation_members[OF v, of fs fsn orn] fc show ?thesis
    by (simp add: matchInv_def start_frame)
qed

text \<open>Every admitted action keeps the invariant.\<close>

lemma step_inv:
  assumes "validRoster r" and "matchInv r s" and "admitted s a"
  shows "matchInv r (matchReducer s a)"
proof (cases a)
  case (INCREMENT sd c t)
  with assms show ?thesis by (simp add: admitted_def increment_inv)
next
  case (CONTINUE_NEXT_SET t srv rcv)
  with assms show ?thesis by (simp add: admitted_def continue_inv)
next
  case UNDO
  with assms show ?thesis by (simp add: undo_inv)
next
  case RESET_HISTORY
  with assms show ?thesis by (simp add: matchInv_def)
qed (use assms in \<open>simp_all add: admitted_def\<close>)

lemma run_inv:
  "validRoster r \<Longrightarrow> matchInv r s \<Longrightarrow> admittedAll s acts \<Longrightarrow>
     matchInv r (dispatchAll s acts)"
  unfolding dispatchAll_def
  by (induction acts arbitrary: s) (simp_all add: step_inv)

text \<open>
  Claim C8, as amended. After a valid \<^verbatim>\<open>START_MATCH\<close> (distinct names, one or two players a
  side, in doubles the first server on the first serving side and the first receiver on
  the other side), in every state reached by \<^verbatim>\<open>INCREMENT\<close>, \<^verbatim>\<open>UNDO\<close>, \<^verbatim>\<open>CONTINUE_NEXT_SET\<close>
  and \<^verbatim>\<open>RESET_HISTORY\<close> actions in which every next set is started with a server and a
  receiver of opposite sides and no point is dispatched while a finished set is waiting in
  \<^verbatim>\<open>setFinishData\<close>, the current receiver differs from the current server.
\<close>

theorem receiver_differs_from_server:
  assumes "validStart roster fs fsn orn"
    and "admittedAll (matchReducer s0 (START_MATCH roster fs fsn orn tgt t0)) acts"
  shows "currentReceiver (dispatchAll (matchReducer s0 (START_MATCH roster fs fsn orn tgt t0)) acts)
       \<noteq> currentServer (dispatchAll (matchReducer s0 (START_MATCH roster fs fsn orn tgt t0)) acts)"
proof -
  from assms(1) have v: "validRoster roster" by (simp add: validStart_def)
  from start_inv[OF assms(1), of tgt t0]
  have "matchInv roster (matchReducer s0 (START_MATCH roster fs fsn orn tgt t0))" by simp
  from run_inv[OF v this assms(2)] inv_differ[OF v] show ?thesis by blast
qed

theorem receiver_differs_from_server_witness:
  "validStart doublesRoster SideA ''Abe'' ''Bea'' \<and>
   admittedAll doublesStart sampleMatch \<and>
   currentReceiver (dispatchAll doublesStart sampleMatch)
     \<noteq> currentServer (dispatchAll doublesStart sampleMatch)"
proof -
  have h1: "validStart doublesRoster SideA ''Abe'' ''Bea''"
    by code_simp
  have h2: "admittedAll doublesStart sampleMatch"
    by code_simp
  from receiver_differs_from_server [OF h1, of initialState "Some 15" 0 sampleMatch] h1 h2
  show ?thesis
    by (simp add: doublesStart_def)
qed

text \<open>
  The claim as stated fails twice over in the doubles match started with Abe serving to
  Bea, to 15. First trace, points only: A wins 14 rallies, B wins 13, A wins the set
  15--13, and side B then wins two more rallies before the next set is started; at 15--15
  the reducer names Ann both server and receiver. Second trace: A wins the set 15--0 and
  the next set is started with Ann chosen as server and as receiver.
\<close>

theorem receiver_differs_from_server_counterexample:
  "validStart doublesRoster SideA ''Abe'' ''Bea'' \<and>
   currentServer (dispatchAll doublesStart
      (rallies SideA 14 @ rallies SideB 13 @ rallies SideA 1 @ rallies SideB 2)) = Name ''Ann'' \<and>
   currentReceiver (dispatchAll doublesStart
      (rallies SideA 14 @ rallies SideB 13 @ rallies SideA 1 @ rallies SideB 2)) = Name ''Ann'' \<and>
   currentReceiver (dispatchAll doublesStart
      (rallies SideA 15 @ [CONTINUE_NEXT_SET 0 ''Ann'' ''Ann'']))
     = currentServer (dispatchAll doublesStart
      (rallies SideA 15 @ [CONTINUE_NEXT_SET 0 ''Ann'' ''Ann'']))"
  by code_simp

end
